theory Spec2Isabelle
  imports Main "HOL-Library.Finite_Map"
begin

section \<open>Go strings\<close>

text \<open>
  A Go string is a byte sequence read as UTF-8. It is modelled by the sequence of code
  points that decoding yields (what \<^verbatim>\<open>range s\<close> iterates over, an invalid byte
  being the rune U+FFFD). \<^verbatim>\<open>strings.ToLower\<close> and package \<^verbatim>\<open>regexp\<close> work on
  these runes; the strings that \<^verbatim>\<open>TitleUrl\<close> returns are ASCII, so that for them
  equality of rune sequences is equality of the Go strings.
\<close>

type_synonym rune = nat
type_synonym gostring = "rune list"

definition runes :: "string \<Rightarrow> gostring" where
  "runes s = map of_char s"

subsection \<open>unicode.ToLower and strings.ToLower\<close>

text \<open>
  The case table of package \<^verbatim>\<open>unicode\<close> is not part of the repository. The model
  gives its value on every rune below U+0100 and on the runes from U+0100 on whose lower
  case is below U+0100: U+0130 (to \<open>i\<close>), U+0178 (to U+00FF), U+1E9E (to U+00DF),
  U+212A (to \<open>k\<close>) and U+212B (to U+00E5). On any other rune it is the identity; Go
  maps such a rune to a rune from U+0100 on, which \<^verbatim>\<open>TitleUrl\<close> deletes like the rune
  itself.
\<close>

definition unicode_ToLower :: "rune \<Rightarrow> rune" where
  "unicode_ToLower r =
     (if 65 \<le> r \<and> r \<le> 90 then r + 32
      else if (192 \<le> r \<and> r \<le> 214) \<or> (216 \<le> r \<and> r \<le> 222) then r + 32
      else if r = 304 then 105
      else if r = 376 then 255
      else if r = 7838 then 223
      else if r = 8490 then 107
      else if r = 8491 then 229
      else r)"

definition strings_ToLower :: "gostring \<Rightarrow> gostring" where
  "strings_ToLower s = map unicode_ToLower s"

subsection \<open>strings.NewReplacer(...).Replace\<close>

text \<open>
  The replacer scans the string from the left; at each position the first pair, in
  argument order, whose old string starts there is applied and the scan goes on behind
  the match; where no pair applies the rune is copied. The pairs of this program have
  non-empty old strings, and a pair with an empty one is ignored here.
\<close>

fun lookup_pair :: "(gostring \<times> gostring) list \<Rightarrow> gostring \<Rightarrow> (gostring \<times> gostring) option" where
  "lookup_pair [] s = None"
| "lookup_pair ((old, new) # ps) s =
     (if old \<noteq> [] \<and> take (length old) s = old then Some (old, new) else lookup_pair ps s)"

function Replace :: "(gostring \<times> gostring) list \<Rightarrow> gostring \<Rightarrow> gostring" where
  "Replace ps [] = []"
| "Replace ps (c # cs) =
     (case lookup_pair ps (c # cs) of
        None \<Rightarrow> c # Replace ps cs
      | Some (old, new) \<Rightarrow> new @ Replace ps (drop (length old - 1) cs))"
  by pat_completeness auto
termination
  by (relation "measure (\<lambda>(ps, s). length s)") auto

subsection \<open>regexp: ReplaceAllString\<close>

text \<open>
  The three expressions of the program have the shape \<open>C{lo,hi}\<close> for a class \<open>C\<close> of
  single runes: \<^verbatim>\<open>[^a-zA-Z0-9 ]\<close> is \<open>C{1,1}\<close>, \<^verbatim>\<open> +\<close> is \<open>C{1,}\<close> and
  \<^verbatim>\<open>-{2,10}\<close> is \<open>C{2,10}\<close>. Matching is leftmost and greedy: at a position where at
  least \<open>lo\<close> runes of the class follow, the match takes as many of them as \<open>hi\<close>
  allows, is replaced, and the scan goes on behind it; elsewhere the rune is copied.
  \<open>hi = None\<close> is no upper bound. The model is for \<open>lo \<ge> 1\<close> (no empty match).
\<close>

function ReplaceAllString :: "(rune \<Rightarrow> bool) \<Rightarrow> nat \<Rightarrow> nat option \<Rightarrow> gostring \<Rightarrow> gostring \<Rightarrow> gostring" where
  "ReplaceAllString C lo hi [] repl = []"
| "ReplaceAllString C lo hi (c # cs) repl =
     (let n = length (takeWhile C (c # cs));
          m = (case hi of None \<Rightarrow> n | Some h \<Rightarrow> min h n)
      in if 1 \<le> m \<and> lo \<le> m
         then repl @ ReplaceAllString C lo hi (drop (m - 1) cs) repl
         else c # ReplaceAllString C lo hi cs repl)"
  by pat_completeness auto
termination
  by (relation "measure (\<lambda>(C, lo, hi, s, repl). length s)") auto

definition is_alnum_space :: "rune \<Rightarrow> bool" where
  \<comment> \<open>the class \<^verbatim>\<open>[a-zA-Z0-9 ]\<close>\<close>
  "is_alnum_space c \<longleftrightarrow>
     (97 \<le> c \<and> c \<le> 122) \<or> (65 \<le> c \<and> c \<le> 90) \<or> (48 \<le> c \<and> c \<le> 57) \<or> c = 32"

subsection \<open>url.PathEscape\<close>

text \<open>
  \<^verbatim>\<open>url.PathEscape\<close> works on the bytes of the string: a byte is kept when it is an
  ASCII letter or digit, one of \<^verbatim>\<open>-_.~\<close> or one of \<^verbatim>\<open>$&+=:@\<close>, and is written
  as \<^verbatim>\<open>%XX\<close> with upper-case hexadecimal digits otherwise.
\<close>

definition utf8_encode :: "rune \<Rightarrow> nat list" where
  "utf8_encode r =
     (if r < 128 then [r]
      else if r < 2048 then [192 + r div 64, 128 + r mod 64]
      else if r < 65536 then [224 + r div 4096, 128 + (r div 64) mod 64, 128 + r mod 64]
      else if r < 1114112 then
        [240 + r div 262144, 128 + (r div 4096) mod 64, 128 + (r div 64) mod 64, 128 + r mod 64]
      else [239, 191, 189])"

definition shouldEscape :: "nat \<Rightarrow> bool" where
  \<comment> \<open>\<^verbatim>\<open>shouldEscape(c, encodePathSegment)\<close>\<close>
  "shouldEscape c =
     (if (97 \<le> c \<and> c \<le> 122) \<or> (65 \<le> c \<and> c \<le> 90) \<or> (48 \<le> c \<and> c \<le> 57) then False
      else if c \<in> {45, 95, 46, 126} then False
      else if c \<in> {36, 38, 43, 44, 47, 58, 59, 61, 63, 64} then c \<in> {47, 59, 44, 63}
      else True)"

definition upperhex :: "nat \<Rightarrow> rune" where
  "upperhex d = (if d < 10 then 48 + d else 55 + d)"

definition escape_byte :: "nat \<Rightarrow> gostring" where
  "escape_byte c = (if shouldEscape c then [37, upperhex (c div 16), upperhex (c mod 16)] else [c])"

definition PathEscape :: "gostring \<Rightarrow> gostring" where
  "PathEscape s = concat (map escape_byte (concat (map utf8_encode s)))"

section \<open>Slug generator\<close>

definition TitleUrl :: "gostring \<Rightarrow> gostring" where
  "TitleUrl title =
     (let t = strings_ToLower title;
          t = Replace [([228], runes ''ae''), ([246], runes ''oe''),
                       ([252], runes ''ue''), ([223], runes ''ss'')] t;
          t = ReplaceAllString (\<lambda>c. \<not> is_alnum_space c) 1 (Some 1) t [];
          t = ReplaceAllString (\<lambda>c. c = 32) 1 None t (runes ''-'');
          t = ReplaceAllString (\<lambda>c. c = 45) 2 (Some 10) t (runes ''-'')
      in PathEscape t)"

text \<open>
  \<^verbatim>\<open>map[string]bool\<close>: a finite map; reading a key that is absent yields \<^verbatim>\<open>false\<close>.
\<close>

type_synonym boolmap = "(gostring, bool) fmap"

definition lookupb :: "boolmap \<Rightarrow> gostring \<Rightarrow> bool" where
  "lookupb m k = (case fmlookup m k of None \<Rightarrow> False | Some b \<Rightarrow> b)"

text \<open>The loop \<^verbatim>\<open>for otherPodcasts[t] { t += "x" }\<close> of \<^verbatim>\<open>GetTitleUrl\<close>.\<close>

function GetTitleUrl_loop :: "boolmap \<Rightarrow> gostring \<Rightarrow> gostring" where
  "GetTitleUrl_loop otherPodcasts t =
     (if lookupb otherPodcasts t then GetTitleUrl_loop otherPodcasts (t @ runes ''x'') else t)"
  by pat_completeness auto
termination
proof (relation "measure (\<lambda>(m, t). Suc (Max (insert 0 (length ` fmdom' m))) - length t)")
  show "wf (measure (\<lambda>(m, t). Suc (Max (insert 0 (length ` fmdom' m))) - length t))"
    by simp
next
  fix otherPodcasts :: boolmap and t :: gostring
  assume "lookupb otherPodcasts t"
  then have "t \<in> fmdom' otherPodcasts"
    by (auto simp: lookupb_def split: option.splits intro: fmdom'I)
  then have "length t \<le> Max (insert 0 (length ` fmdom' otherPodcasts))"
    by (intro Max_ge) auto
  then show "((otherPodcasts, t @ runes ''x''), (otherPodcasts, t))
      \<in> measure (\<lambda>(m, t). Suc (Max (insert 0 (length ` fmdom' m))) - length t)"
    by (simp add: runes_def)
qed

definition GetTitleUrl :: "gostring \<Rightarrow> boolmap \<Rightarrow> gostring" where
  "GetTitleUrl title otherPodcasts = GetTitleUrl_loop otherPodcasts (TitleUrl title)"

section \<open>Data model\<close>

text \<open>
  \<^verbatim>\<open>time.Time\<close> is an instant, \<^verbatim>\<open>primitive.ObjectID\<close> an identifier whose zero value
  is \<open>0\<close>. Where two structs have a field of the same name, the field of \<^verbatim>\<open>Podcast\<close>
  keeps the name and the others carry the name of their struct in front.
\<close>

type_synonym time = int
type_synonym ObjectID = nat

record PodcastOwner =
  Name :: gostring
  Email :: gostring

record Podcast =
  ID :: ObjectID
  Title :: gostring
  Categories :: "gostring list"
  Link :: gostring
  Description :: gostring
  Subtitle :: gostring
  Owner :: PodcastOwner
  Author :: gostring
  Image :: gostring
  Feed :: gostring
  PodlistUrl :: gostring
  Updated :: time

record EpisodeEnclosure =
  Filesize :: gostring
  Filetype :: gostring
  Url :: gostring

record Episode =
  Episode_ID :: ObjectID
  Episode_PodlistUrl :: gostring
  PodcastId :: ObjectID
  PodcastUrl :: gostring
  PodcastTitle :: gostring
  PodcastImage :: gostring
  Guid :: gostring
  Episode_Title :: gostring
  Published :: time
  Duration :: gostring
  Summary :: gostring
  Episode_Subtitle :: gostring
  Episode_Description :: gostring
  Episode_Image :: gostring
  Content :: gostring
  Enclosure :: EpisodeEnclosure

text \<open>The fields of the \<^verbatim>\<open>gofeed\<close> structs that the program reads; a nil pointer is \<open>None\<close>.\<close>

record ITunesOwner =
  Owner_Name :: gostring
  Owner_Email :: gostring

record ITunesFeedExtension =
  Ext_Owner :: "ITunesOwner option"
  Ext_Subtitle :: gostring
  Ext_Author :: gostring
  Ext_Image :: gostring

record ITunesItemExtension =
  Item_Duration :: gostring
  Item_Summary :: gostring
  Item_Subtitle :: gostring
  Item_Image :: gostring

record gofeed_Enclosure =
  Enclosure_URL :: gostring
  Enclosure_Length :: gostring
  Enclosure_Type :: gostring

record gofeed_Item =
  Item_Title :: gostring
  GUID :: gostring
  Item_Description :: gostring
  Item_Content :: gostring
  Item_PublishedParsed :: "time option"
  Enclosures :: "gofeed_Enclosure list"
  Item_ITunesExt :: "ITunesItemExtension option"

record gofeed_Feed =
  Feed_Title :: gostring
  Feed_Categories :: "gostring list"
  Feed_Link :: gostring
  Feed_Description :: gostring
  FeedLink :: gostring
  Feed_PublishedParsed :: "time option"
  Feed_ITunesExt :: "ITunesFeedExtension option"
  Items :: "gofeed_Item list"

datatype error =
    FeedError
  | ErrorFetchingExistingPodcast
  | ErrorInsertingPodcast
  | ErrorProcessingEpisodes error
  | ErrorFetchingExistingEpisodes
  | ErrorDecodingExistingEpisodes
  | ErrorInsertingNewEpisodes

section \<open>The store and the environment\<close>

text \<open>
  The two collections hold documents in insertion order, read back as the structs they
  decode to. What the program cannot decide is a field of the environment: the clock
  (one reading for all calls of \<^verbatim>\<open>time.Now\<close>), the identifiers the driver generates
  for documents inserted without one, and whether an operation of the store fails. \<open>bulkWrite_stops = Some n\<close> is a bulk write that
  returns an error after its first \<open>n\<close> documents were written (the write is ordered);
  \<open>None\<close> is a bulk write that succeeds.
\<close>

record Store =
  podcasts :: "Podcast list"
  episodes :: "Episode list"

record Env =
  now :: time
  newPodcastID :: ObjectID
  newEpisodeID :: "nat \<Rightarrow> ObjectID"
  findOne_fails :: bool
  insertOne_fails :: bool
  updateOne_fails :: bool
  find_fails :: bool
  cursorAll_fails :: bool
  bulkWrite_stops :: "nat option"

text \<open>The state \<^verbatim>\<open>processFeed\<close> works on: the store and the two maps it is handed.\<close>

record State =
  store :: Store
  existingPodcastFeeds :: boolmap
  podcastTitles :: boolmap

section \<open>Feed fetcher\<close>

text \<open>The parser is external: \<open>parseURL url\<close> is its outcome, \<open>None\<close> an error.\<close>

definition LoadFeed :: "(gostring \<Rightarrow> gofeed_Feed option) \<Rightarrow> gostring \<Rightarrow> error + gofeed_Feed" where
  "LoadFeed parseURL url =
     (case parseURL url of
        None \<Rightarrow> Inl FeedError
      | Some feed \<Rightarrow>
          Inr (if length (FeedLink feed) \<le> 0 then feed\<lparr>FeedLink := url\<rparr> else feed))"

section \<open>Reconciler\<close>

text \<open>
  One call of \<^verbatim>\<open>processFeed\<close> running alone: the calls that \<^verbatim>\<open>processBatch\<close>
  starts side by side on the same two maps are not interleaved here.
\<close>

definition createNewPodcast :: "Env \<Rightarrow> gofeed_Feed \<Rightarrow> gostring \<Rightarrow> Podcast" where
  "createNewPodcast env feed pTitleUrl =
     (let t = (case Feed_PublishedParsed feed of None \<Rightarrow> now env | Some p \<Rightarrow> p);
          o_zero = \<lparr>Name = [], Email = []\<rparr>;
          (ow, subtitle, author, image) =
            (case Feed_ITunesExt feed of
               None \<Rightarrow> (o_zero, [], [], [])
             | Some x \<Rightarrow>
                 ((case Ext_Owner x of
                     None \<Rightarrow> o_zero
                   | Some w \<Rightarrow> \<lparr>Name = Owner_Name w, Email = Owner_Email w\<rparr>),
                  Ext_Subtitle x, Ext_Author x, Ext_Image x))
      in \<lparr>ID = 0, Title = Feed_Title feed, Categories = Feed_Categories feed,
          Link = Feed_Link feed, Description = Feed_Description feed, Subtitle = subtitle,
          Owner = ow, Author = author, Image = image, Feed = FeedLink feed,
          PodlistUrl = pTitleUrl, Updated = t\<rparr>)"

text \<open>
  The update document of \<^verbatim>\<open>updatePodcast\<close>: the entries under \<^verbatim>\<open>$set\<close>, by the
  field names of the stored document.
\<close>

datatype bson_value = BString gostring | BStrings "gostring list" | BTime time

definition update_set :: "Env \<Rightarrow> gofeed_Feed \<Rightarrow> (string \<times> bson_value) list" where
  "update_set env feed =
     [(''categories'', BStrings (Feed_Categories feed)),
      (''link'', BString (Feed_Link feed)),
      (''description'', BString (Feed_Description feed)),
      (''updated'', BTime (now env))]
     @ (case Feed_ITunesExt feed of
          None \<Rightarrow> []
        | Some x \<Rightarrow>
            [(''subtitle'', BString (Ext_Subtitle x)),
             (''author'', BString (Ext_Author x)),
             (''image'', BString (Ext_Image x))])"

text \<open>
  What \<^verbatim>\<open>$set\<close> does to a stored podcast, field by field of its \<^verbatim>\<open>bson\<close> tags. A
  value of another type than the field's has no counterpart in the record and leaves it
  as it is; \<^verbatim>\<open>_id\<close> and \<^verbatim>\<open>owner\<close> cannot be set to a value of \<open>bson_value\<close>.
\<close>

fun set_field :: "string \<times> bson_value \<Rightarrow> Podcast \<Rightarrow> Podcast" where
  "set_field (k, BString v) p =
     (if k = ''title'' then p\<lparr>Title := v\<rparr>
      else if k = ''link'' then p\<lparr>Link := v\<rparr>
      else if k = ''description'' then p\<lparr>Description := v\<rparr>
      else if k = ''subtitle'' then p\<lparr>Subtitle := v\<rparr>
      else if k = ''author'' then p\<lparr>Author := v\<rparr>
      else if k = ''image'' then p\<lparr>Image := v\<rparr>
      else if k = ''feed'' then p\<lparr>Feed := v\<rparr>
      else if k = ''podlistUrl'' then p\<lparr>PodlistUrl := v\<rparr>
      else p)"
| "set_field (k, BStrings vs) p = (if k = ''categories'' then p\<lparr>Categories := vs\<rparr> else p)"
| "set_field (k, BTime t) p = (if k = ''updated'' then p\<lparr>Updated := t\<rparr> else p)"

text \<open>\<^verbatim>\<open>UpdateOne\<close> with the filter \<^verbatim>\<open>{"_id": id}\<close>: the first document with that identifier.\<close>

fun UpdateOne :: "ObjectID \<Rightarrow> (string \<times> bson_value) list \<Rightarrow> Podcast list \<Rightarrow> Podcast list" where
  "UpdateOne i upd [] = []"
| "UpdateOne i upd (p # ps) = (if ID p = i then fold set_field upd p # ps else p # UpdateOne i upd ps)"

text \<open>An error of the update is logged, not returned.\<close>

definition updatePodcast :: "Env \<Rightarrow> Podcast \<Rightarrow> gofeed_Feed \<Rightarrow> Store \<Rightarrow> Store" where
  "updatePodcast env podcast feed s =
     (if updateOne_fails env then s
      else s\<lparr>podcasts := UpdateOne (ID podcast) (update_set env feed) (podcasts s)\<rparr>)"

definition createEpisode :: "Env \<Rightarrow> gofeed_Item \<Rightarrow> Podcast \<Rightarrow> Episode" where
  "createEpisode env e podcast =
     (let et = (case Item_PublishedParsed e of None \<Rightarrow> now env | Some p \<Rightarrow> p);
          ee = (case Enclosures e of
                  [] \<Rightarrow> \<lparr>Filesize = [], Filetype = [], Url = []\<rparr>
                | x # _ \<Rightarrow> \<lparr>Filesize = Enclosure_Length x, Filetype = Enclosure_Type x,
                            Url = Enclosure_URL x\<rparr>);
          (duration, summary, subtitle, image) =
            (case Item_ITunesExt e of
               None \<Rightarrow> ([], [], [], [])
             | Some x \<Rightarrow> (Item_Duration x, Item_Summary x, Item_Subtitle x, Item_Image x))
      in \<lparr>Episode_ID = 0, Episode_PodlistUrl = GetTitleUrl (Item_Title e) fmempty,
          PodcastId = 0, PodcastUrl = PodlistUrl podcast, PodcastTitle = Title podcast,
          PodcastImage = Image podcast, Guid = GUID e, Episode_Title = Item_Title e,
          Published = et, Duration = duration, Summary = summary, Episode_Subtitle = subtitle,
          Episode_Description = Item_Description e, Episode_Image = image,
          Content = Item_Content e, Enclosure = ee\<rparr>)"

text \<open>The loop over \<^verbatim>\<open>feed.Items\<close> that collects \<^verbatim>\<open>newEpisodes\<close>, in the order of the items.\<close>

fun newEpisodes_of :: "Env \<Rightarrow> boolmap \<Rightarrow> Podcast \<Rightarrow> gofeed_Item list \<Rightarrow> Episode list" where
  "newEpisodes_of env existingEpisodes podcast [] = []"
| "newEpisodes_of env existingEpisodes podcast (e # es) =
     (if Item_ITunesExt e \<noteq> None then
        (if \<not> lookupb existingEpisodes (GUID e)
         then createEpisode env e podcast # newEpisodes_of env existingEpisodes podcast es
         else newEpisodes_of env existingEpisodes podcast es)
      else newEpisodes_of env existingEpisodes podcast es)"

text \<open>The documents of a bulk write get the identifiers the driver generates.\<close>

definition with_ids :: "Env \<Rightarrow> Episode list \<Rightarrow> Episode list" where
  "with_ids env es = map (\<lambda>(i, e). e\<lparr>Episode_ID := newEpisodeID env i\<rparr>) (enumerate 0 es)"

definition processEpisodes :: "Env \<Rightarrow> gofeed_Feed \<Rightarrow> Podcast \<Rightarrow> Store \<Rightarrow> error option \<times> Store" where
  "processEpisodes env feed podcast s =
     (if find_fails env then (Some ErrorFetchingExistingEpisodes, s)
      else if cursorAll_fails env then (Some ErrorDecodingExistingEpisodes, s)
      else
        let found = filter (\<lambda>e. PodcastUrl e = PodlistUrl podcast) (episodes s);
            existingEpisodes = fold (\<lambda>e m. fmupd (Guid e) True m) found fmempty;
            newEpisodes = newEpisodes_of env existingEpisodes podcast (Items feed)
        in if length newEpisodes > 0 then
             (case bulkWrite_stops env of
                Some n \<Rightarrow>
                  (Some ErrorInsertingNewEpisodes,
                   s\<lparr>episodes := episodes s @ take n (with_ids env newEpisodes)\<rparr>)
              | None \<Rightarrow> (None, s\<lparr>episodes := episodes s @ with_ids env newEpisodes\<rparr>))
           else (None, s))"

definition processFeed :: "Env \<Rightarrow> gofeed_Feed \<Rightarrow> State \<Rightarrow> error option \<times> State" where
  "processFeed env feed st =
     (let pTitleUrl = GetTitleUrl (Feed_Title feed) (podcastTitles st)
      in if lookupb (existingPodcastFeeds st) (FeedLink feed) then
           (if findOne_fails env then (Some ErrorFetchingExistingPodcast, st)
            else case find (\<lambda>p. Feed p = FeedLink feed) (podcasts (store st)) of
                None \<Rightarrow> (Some ErrorFetchingExistingPodcast, st)
              | Some podcast \<Rightarrow>
                  (let s1 = updatePodcast env podcast feed (store st);
                       (err, s2) = processEpisodes env feed podcast s1
                   in (case err of
                         Some e \<Rightarrow> (Some (ErrorProcessingEpisodes e), st\<lparr>store := s2\<rparr>)
                       | None \<Rightarrow> (None, st\<lparr>store := s2\<rparr>))))
         else
           (let podcast = createNewPodcast env feed pTitleUrl
            in if insertOne_fails env then (Some ErrorInsertingPodcast, st)
               else
                 (let s1 = (store st)\<lparr>podcasts :=
                              podcasts (store st) @ [podcast\<lparr>ID := newPodcastID env\<rparr>]\<rparr>;
                      feeds = fmupd (FeedLink feed) True (existingPodcastFeeds st);
                      titles = fmupd pTitleUrl True (podcastTitles st);
                      (err, s2) = processEpisodes env feed podcast s1;
                      st' = \<lparr>store = s2, existingPodcastFeeds = feeds, podcastTitles = titles\<rparr>
                  in (case err of
                        Some e \<Rightarrow> (Some (ErrorProcessingEpisodes e), st')
                      | None \<Rightarrow> (None, st')))))"

section \<open>Reference definitions, following the specification\<close>

text \<open>
  The steps of \<open>slugify\<close> as the specification words them: transliteration rune by
  rune; each run of spaces becomes one hyphen (a space in front of another space is
  dropped, the last space of a run becomes the hyphen); each maximal run of 2 to 10
  hyphens becomes one hyphen, any other run is left as it is.
\<close>

definition translit :: "rune \<Rightarrow> gostring" where
  "translit c =
     (if c = 228 then runes ''ae'' else if c = 246 then runes ''oe''
      else if c = 252 then runes ''ue'' else if c = 223 then runes ''ss'' else [c])"

fun spaces_to_hyphen :: "gostring \<Rightarrow> gostring" where
  "spaces_to_hyphen [] = []"
| "spaces_to_hyphen [c] = (if c = 32 then [45] else [c])"
| "spaces_to_hyphen (c # d # cs) =
     (if c = 32 then (if d = 32 then spaces_to_hyphen (d # cs) else 45 # spaces_to_hyphen (d # cs))
      else c # spaces_to_hyphen (d # cs))"

fun rle :: "'a list \<Rightarrow> ('a \<times> nat) list" where
  "rle [] = []"
| "rle (c # cs) =
     (case rle cs of
        [] \<Rightarrow> [(c, 1)]
      | (d, n) # rs \<Rightarrow> if c = d then (d, Suc n) # rs else (c, 1) # (d, n) # rs)"

definition collapse_hyphens :: "gostring \<Rightarrow> gostring" where
  "collapse_hyphens s =
     concat (map (\<lambda>(c, n). if c = 45 \<and> 2 \<le> n \<and> n \<le> 10 then [45] else replicate n c) (rle s))"

definition spec_slugify :: "gostring \<Rightarrow> gostring" where
  "spec_slugify title =
     PathEscape (collapse_hyphens (spaces_to_hyphen (filter is_alnum_space
       (concat (map translit (map unicode_ToLower title))))))"

text \<open>
  \<open>uniqueSlug\<close> as the specification words it: while the candidate is in
  \<open>usedSlugs\<close>, append \<open>x\<close> and slugify again. The loop is a partial function;
  \<open>None\<close> is a loop that does not end.
\<close>

partial_function (option) uniqueSlug_spec_loop :: "boolmap \<Rightarrow> gostring \<Rightarrow> gostring option" where
  "uniqueSlug_spec_loop usedSlugs t =
     (if lookupb usedSlugs t then uniqueSlug_spec_loop usedSlugs (TitleUrl (t @ runes ''x''))
      else Some t)"

definition uniqueSlug_spec :: "gostring \<Rightarrow> boolmap \<Rightarrow> gostring option" where
  "uniqueSlug_spec title usedSlugs = uniqueSlug_spec_loop usedSlugs (TitleUrl title)"

text \<open>
  Repeated calls for one title, each result being entered into the map before the next
  call, as \<^verbatim>\<open>processFeed\<close> does with \<^verbatim>\<open>podcastTitles\<close>.
\<close>

fun repeated_calls :: "gostring \<Rightarrow> boolmap \<Rightarrow> nat \<Rightarrow> gostring list" where
  "repeated_calls title usedSlugs 0 = []"
| "repeated_calls title usedSlugs (Suc n) =
     (let s = GetTitleUrl title usedSlugs
      in s # repeated_calls title (fmupd s True usedSlugs) n)"

text \<open>
  Two predicates for the proofs: the runes \<^verbatim>\<open>[a-z0-9]\<close>, and strings without two
  hyphens in a row.
\<close>

definition slug_char :: "rune \<Rightarrow> bool" where
  "slug_char c \<longleftrightarrow> (97 \<le> c \<and> c \<le> 122) \<or> (48 \<le> c \<and> c \<le> 57)"

fun no_double_hyphen :: "gostring \<Rightarrow> bool" where
  "no_double_hyphen [] = True"
| "no_double_hyphen [c] = True"
| "no_double_hyphen (c # d # cs) = (\<not> (c = 45 \<and> d = 45) \<and> no_double_hyphen (d # cs))"

section \<open>Example data\<close>

text \<open>
  An environment in which no operation of the store fails, feed items with and without
  the iTunes extension, a feed with given title, self link and items, and a stored
  podcast.
\<close>

definition ok_env :: Env where
  "ok_env = \<lparr>now = 0, newPodcastID = 1, newEpisodeID = Suc, findOne_fails = False,
     insertOne_fails = False, updateOne_fails = False, find_fails = False,
     cursorAll_fails = False, bulkWrite_stops = None\<rparr>"

definition itunes_item :: "gostring \<Rightarrow> gostring \<Rightarrow> gofeed_Item" where
  "itunes_item title guid =
     \<lparr>Item_Title = title, GUID = guid, Item_Description = [], Item_Content = [],
      Item_PublishedParsed = None, Enclosures = [],
      Item_ITunesExt = Some \<lparr>Item_Duration = [], Item_Summary = [], Item_Subtitle = [],
                              Item_Image = []\<rparr>\<rparr>"

definition plain_item :: "gostring \<Rightarrow> gostring \<Rightarrow> gofeed_Item" where
  "plain_item title guid = (itunes_item title guid)\<lparr>Item_ITunesExt := None\<rparr>"

definition feed_of :: "gostring \<Rightarrow> gostring \<Rightarrow> gofeed_Item list \<Rightarrow> gofeed_Feed" where
  "feed_of title link items =
     \<lparr>Feed_Title = title, Feed_Categories = [], Feed_Link = [], Feed_Description = [],
      FeedLink = link, Feed_PublishedParsed = None, Feed_ITunesExt = None, Items = items\<rparr>"

definition empty_store :: Store where
  "empty_store = \<lparr>podcasts = [], episodes = []\<rparr>"

definition my_show_podcast :: Podcast where
  "my_show_podcast =
     \<lparr>ID = 1, Title = runes ''My Show'', Categories = [], Link = [], Description = [],
      Subtitle = [], Owner = \<lparr>Name = [], Email = []\<rparr>, Author = [], Image = [],
      Feed = runes ''https://a.example/feed.xml'', PodlistUrl = runes ''my-show'', Updated = 0\<rparr>"

definition empty_state :: State where
  "empty_state = \<lparr>store = empty_store, existingPodcastFeeds = fmempty, podcastTitles = fmempty\<rparr>"

section \<open>The slug generator: lemmas\<close>

declare GetTitleUrl_loop.simps [simp del]

subsection \<open>The library calls on the strings of the program\<close>

lemma Replace_translit:
  "Replace [([228], runes ''ae''), ([246], runes ''oe''), ([252], runes ''ue''), ([223], runes ''ss'')] s
     = concat (map translit s)"
  by (induction s) (simp_all add: translit_def)

lemma ReplaceAllString_one:
  "ReplaceAllString C 1 (Some 1) s [] = filter (\<lambda>c. \<not> C c) s"
  by (induction s) (simp_all add: Let_def)

lemma ReplaceAllString_drop_spaces:
  "ReplaceAllString (\<lambda>c. c = 32) 1 None (replicate k 32 @ s) r =
     (if k = 0 then ReplaceAllString (\<lambda>c. c = 32) 1 None s r
      else r @ ReplaceAllString (\<lambda>c. c = 32) 1 None (dropWhile (\<lambda>c. c = 32) s) r)"
proof (cases k)
  case 0
  then show ?thesis by simp
next
  case (Suc j)
  have tw: "takeWhile (\<lambda>c. c = (32::nat)) (replicate j 32 @ s) = replicate j 32 @ takeWhile (\<lambda>c. c = 32) s"
    by (induction j) simp_all
  have "drop (j + length (takeWhile (\<lambda>c. c = (32::nat)) s)) (replicate j 32 @ s) = dropWhile (\<lambda>c. c = 32) s"
    by (simp add: dropWhile_eq_drop)
  then show ?thesis using Suc by (simp add: Let_def tw)
qed

lemma spaces_to_hyphen_dropWhile:
  "spaces_to_hyphen (32 # cs) = 45 # spaces_to_hyphen (dropWhile (\<lambda>c. c = 32) cs)"
  by (induction cs) simp_all

lemma ReplaceAllString_spaces:
  "ReplaceAllString (\<lambda>c. c = 32) 1 None s (runes ''-'') = spaces_to_hyphen s"
proof (induction s rule: length_induct)
  case (1 s)
  show ?case
  proof (cases s)
    case Nil
    then show ?thesis by simp
  next
    case (Cons c cs)
    show ?thesis
    proof (cases "c = 32")
      case False
      have "spaces_to_hyphen (c # cs) = c # spaces_to_hyphen cs"
        using False by (cases cs) simp_all
      with False Cons 1 show ?thesis by (simp add: Let_def)
    next
      case True
      have len: "length (dropWhile (\<lambda>c. c = 32) cs) < length s"
        using Cons by (simp add: le_imp_less_Suc length_dropWhile_le)
      have "ReplaceAllString (\<lambda>c. c = 32) 1 None (replicate 1 32 @ cs) (runes ''-'')
              = runes ''-'' @ ReplaceAllString (\<lambda>c. c = 32) 1 None (dropWhile (\<lambda>c. c = 32) cs) (runes ''-'')"
        by (subst ReplaceAllString_drop_spaces) simp
      also have "\<dots> = 45 # spaces_to_hyphen (dropWhile (\<lambda>c. c = 32) cs)"
        using 1 len by (simp add: runes_def)
      finally show ?thesis using True Cons by (simp add: spaces_to_hyphen_dropWhile)
    qed
  qed
qed

lemma ReplaceAllString_hyphens_id:
  "no_double_hyphen s \<Longrightarrow> ReplaceAllString (\<lambda>c. c = 45) 2 (Some 10) s r = s"
  by (induction s rule: no_double_hyphen.induct) (simp_all add: Let_def)

lemma rle_Cons_hd: "\<exists>n rs. rle (c # cs) = (c, Suc n) # rs"
  by (cases "rle cs") (auto)

lemma rle_decode: "concat (map (\<lambda>(c, n). replicate n c) (rle s)) = s"
  by (induction s) (auto split: list.splits)

lemma rle_Cons_Cons:
  "rle (d # cs) = (d, k) # rs \<Longrightarrow>
   rle (c # d # cs) = (if c = d then (d, Suc k) # rs else (c, 1) # (d, k) # rs)"
  by simp

lemma rle_no_double_hyphen:
  "no_double_hyphen s \<Longrightarrow> (45, n) \<in> set (rle s) \<Longrightarrow> n = 1"
proof (induction s arbitrary: n rule: no_double_hyphen.induct)
  case 1
  then show ?case by simp
next
  case (2 c)
  then show ?case by simp
next
  case (3 c d cs)
  from rle_Cons_hd[of d cs] obtain k rs where r: "rle (d # cs) = (d, Suc k) # rs"
    by auto
  have nd: "no_double_hyphen (d # cs)" using "3.prems" by simp
  show ?case
  proof (cases "c = d")
    case True
    then have "d \<noteq> 45" using "3.prems" by auto
    moreover have "(45, n) \<in> set ((d, Suc (Suc k)) # rs)"
      using "3.prems"(2) True rle_Cons_Cons[OF r, of c] by simp
    ultimately have "(45, n) \<in> set (rle (d # cs))" using r by auto
    then show ?thesis using "3.IH" nd by blast
  next
    case False
    then have "(45, n) \<in> set ((c, 1) # rle (d # cs))"
      using "3.prems"(2) rle_Cons_Cons[OF r, of c] r by simp
    then show ?thesis using "3.IH" nd False by auto
  qed
qed

lemma collapse_hyphens_id:
  "no_double_hyphen s \<Longrightarrow> collapse_hyphens s = s"
proof -
  assume nd: "no_double_hyphen s"
  have "\<And>c n. (c, n) \<in> set (rle s) \<Longrightarrow> \<not> (c = 45 \<and> 2 \<le> n \<and> n \<le> 10)"
    using rle_no_double_hyphen[OF nd] by fastforce
  then have eq: "map (\<lambda>(c, n). if c = 45 \<and> 2 \<le> n \<and> n \<le> 10 then [45] else replicate n c) (rle s)
          = map (\<lambda>(c, n). replicate n c) (rle s)"
    by (intro map_cong) auto
  show ?thesis unfolding collapse_hyphens_def by (simp only: eq rle_decode)
qed

lemma spaces_to_hyphen_set:
  "set (spaces_to_hyphen s) \<subseteq> (set s - {32}) \<union> {45}"
  by (induction s rule: spaces_to_hyphen.induct) auto

lemma spaces_to_hyphen_hd:
  "d \<noteq> 32 \<Longrightarrow> \<exists>r. spaces_to_hyphen (d # cs) = d # r"
  by (cases cs) auto

lemma no_double_hyphen_Cons:
  "c \<noteq> 45 \<Longrightarrow> no_double_hyphen r \<Longrightarrow> no_double_hyphen (c # r)"
  by (cases r) auto

lemma spaces_to_hyphen_no_double:
  "45 \<notin> set s \<Longrightarrow> no_double_hyphen (spaces_to_hyphen s)"
proof (induction s rule: spaces_to_hyphen.induct)
  case 1
  then show ?case by simp
next
  case (2 c)
  then show ?case by simp
next
  case (3 c d cs)
  show ?case
  proof (cases "d = 32")
    case True
    then show ?thesis using 3 by (auto intro: no_double_hyphen_Cons)
  next
    case False
    obtain r where r: "spaces_to_hyphen (d # cs) = d # r"
      using spaces_to_hyphen_hd[OF False] by blast
    have "no_double_hyphen (d # r)" using 3 False r by (cases "c = 32") auto
    moreover have "d \<noteq> 45" using "3.prems" by auto
    ultimately show ?thesis using False r
      by (cases r) (simp_all del: spaces_to_hyphen.simps add: spaces_to_hyphen.simps(3)[of c d cs])
  qed
qed

lemma spaces_to_hyphen_id: "32 \<notin> set s \<Longrightarrow> spaces_to_hyphen s = s"
  by (induction s rule: spaces_to_hyphen.induct) auto

lemma PathEscape_id:
  "\<forall>c\<in>set s. slug_char c \<or> c = 45 \<Longrightarrow> PathEscape s = s"
proof (induction s)
  case Nil
  then show ?case by (simp add: PathEscape_def)
next
  case (Cons c s)
  then have c: "slug_char c \<or> c = 45" by simp
  then have "utf8_encode c = [c]" by (auto simp: utf8_encode_def slug_char_def)
  moreover have "escape_byte c = [c]"
    using c by (auto simp: escape_byte_def shouldEscape_def slug_char_def)
  ultimately show ?case using Cons by (simp add: PathEscape_def)
qed

subsection \<open>A closed form of TitleUrl\<close>

lemma lower_translit_chars:
  "c \<in> set (translit (unicode_ToLower r)) \<Longrightarrow> is_alnum_space c \<Longrightarrow> slug_char c \<or> c = 32"
  by (auto simp: translit_def unicode_ToLower_def is_alnum_space_def slug_char_def runes_def
           split: if_splits)

lemma stripped_chars:
  "c \<in> set (filter is_alnum_space (concat (map translit (strings_ToLower t)))) \<Longrightarrow>
   slug_char c \<or> c = 32"
  by (auto simp: strings_ToLower_def dest: lower_translit_chars)

lemma stripped_slug_chars:
  "c \<in> set (spaces_to_hyphen (filter is_alnum_space (concat (map translit (strings_ToLower t))))) \<Longrightarrow>
   slug_char c \<or> c = 45"
proof -
  let ?w = "filter is_alnum_space (concat (map translit (strings_ToLower t)))"
  assume "c \<in> set (spaces_to_hyphen ?w)"
  then have "c \<in> set ?w - {32} \<or> c = 45" using spaces_to_hyphen_set[of ?w] by auto
  then show ?thesis using stripped_chars[of c t] by auto
qed

lemma stripped_no_hyphen:
  "45 \<notin> set (filter is_alnum_space (concat (map translit (strings_ToLower t))))"
  using stripped_chars[of 45 t] by (auto simp: slug_char_def)

lemma TitleUrl_closed:
  "TitleUrl t = spaces_to_hyphen (filter is_alnum_space (concat (map translit (strings_ToLower t))))"
proof -
  let ?w = "filter is_alnum_space (concat (map translit (strings_ToLower t)))"
  have nd: "no_double_hyphen (spaces_to_hyphen ?w)"
    by (rule spaces_to_hyphen_no_double) (rule stripped_no_hyphen)
  have "TitleUrl t = PathEscape (spaces_to_hyphen ?w)"
    unfolding TitleUrl_def Let_def Replace_translit ReplaceAllString_one ReplaceAllString_spaces
    by (simp only: ReplaceAllString_hyphens_id[OF nd] not_not)
  also have "\<dots> = spaces_to_hyphen ?w"
    by (rule PathEscape_id) (auto dest: stripped_slug_chars)
  finally show ?thesis .
qed

lemma TitleUrl_chars: "c \<in> set (TitleUrl t) \<Longrightarrow> slug_char c \<or> c = 45"
  unfolding TitleUrl_closed by (rule stripped_slug_chars)

lemma translit_lower_slug:
  "slug_char c \<or> c = 45 \<Longrightarrow> translit (unicode_ToLower c) = [c]"
  by (auto simp: translit_def unicode_ToLower_def slug_char_def)

lemma concat_translit_lower_slug:
  "\<forall>c\<in>set z. slug_char c \<or> c = 45 \<Longrightarrow> concat (map translit (strings_ToLower z)) = z"
  by (induction z) (simp_all add: strings_ToLower_def translit_lower_slug)

lemma TitleUrl_of_slug:
  assumes "\<forall>c\<in>set z. slug_char c \<or> c = 45"
  shows "TitleUrl z = filter (\<lambda>c. c \<noteq> 45) z"
proof -
  have "filter is_alnum_space z = filter (\<lambda>c. c \<noteq> 45) z"
    using assms by (intro filter_cong) (auto simp: is_alnum_space_def slug_char_def)
  moreover have "32 \<notin> set (filter (\<lambda>c. c \<noteq> 45) z)"
    using assms by (auto simp: slug_char_def)
  ultimately show ?thesis
    by (simp add: TitleUrl_closed concat_translit_lower_slug[OF assms] spaces_to_hyphen_id)
qed

lemmas slug_eval = TitleUrl_closed runes_def strings_ToLower_def unicode_ToLower_def translit_def
        is_alnum_space_def

lemma lower_punctuation:
  assumes "c < 128" and "\<not> is_alnum_space c"
  shows "unicode_ToLower c = c"
proof -
  have "\<not> (65 \<le> c \<and> c \<le> 90)" using assms(2) by (simp add: is_alnum_space_def)
  then show ?thesis using assms(1) by (simp add: unicode_ToLower_def)
qed

lemma translit_ascii: "c < 128 \<Longrightarrow> translit c = [c]"
  by (simp add: translit_def)

lemma TitleUrl_punctuation:
  assumes "\<forall>c\<in>set title. c < 128 \<and> \<not> is_alnum_space c"
  shows "TitleUrl title = []"
proof -
  have "filter is_alnum_space (translit (unicode_ToLower c)) = []" if "c \<in> set title" for c
  proof -
    from assms that have c: "c < 128" "\<not> is_alnum_space c" by auto
    show ?thesis by (simp add: lower_punctuation[OF c] translit_ascii[OF c(1)] c(2))
  qed
  then have "filter is_alnum_space (concat (map translit (strings_ToLower title))) = []"
    by (induction title) (simp_all add: strings_ToLower_def)
  then show ?thesis by (simp add: TitleUrl_closed)
qed

subsection \<open>The loop of GetTitleUrl\<close>

lemma lookupb_fmupd [simp]:
  "lookupb (fmupd k b m) k' = (if k = k' then b else lookupb m k')"
  by (simp add: lookupb_def)

lemma lookupb_fmempty [simp]: "\<not> lookupb fmempty k"
  by (simp add: lookupb_def)

lemma GetTitleUrl_loop_least:
  "\<exists>k. GetTitleUrl_loop m t = t @ replicate k 120 \<and> \<not> lookupb m (t @ replicate k 120)
       \<and> (\<forall>j<k. lookupb m (t @ replicate j 120))"
proof (induction m t rule: GetTitleUrl_loop.induct)
  case (1 m t)
  show ?case
  proof (cases "lookupb m t")
    case False
    then have "GetTitleUrl_loop m t = t @ replicate 0 120 \<and> \<not> lookupb m (t @ replicate 0 120)
       \<and> (\<forall>j<0. lookupb m (t @ replicate j 120))"
      by (simp add: GetTitleUrl_loop.simps[of m t])
    then show ?thesis by blast
  next
    case True
    from "1.IH"[OF True] obtain k where
      k: "GetTitleUrl_loop m (t @ runes ''x'') = (t @ runes ''x'') @ replicate k 120"
         "\<not> lookupb m ((t @ runes ''x'') @ replicate k 120)"
         "\<forall>j<k. lookupb m ((t @ runes ''x'') @ replicate j 120)"
      by blast
    have app: "\<And>j. (t @ runes ''x'') @ replicate j 120 = t @ replicate (Suc j) 120"
      by (simp add: runes_def)
    have "\<forall>j<Suc k. lookupb m (t @ replicate j 120)"
    proof (intro allI impI)
      fix j assume "j < Suc k"
      then show "lookupb m (t @ replicate j 120)"
        using True k(3) app by (cases j) auto
    qed
    moreover have "GetTitleUrl_loop m t = t @ replicate (Suc k) 120"
      using True k(1) app by (simp add: GetTitleUrl_loop.simps[of m t])
    moreover have "\<not> lookupb m (t @ replicate (Suc k) 120)"
      using k(2) app by simp
    ultimately show ?thesis by blast
  qed
qed

lemma slug_only_append_x:
  assumes "\<forall>c\<in>set t. slug_char c"
  shows "TitleUrl (t @ runes ''x'') = t @ runes ''x''"
proof -
  have sc: "\<forall>c\<in>set (t @ runes ''x''). slug_char c"
    using assms by (auto simp: runes_def slug_char_def)
  then have "TitleUrl (t @ runes ''x'') = filter (\<lambda>c. c \<noteq> 45) (t @ runes ''x'')"
    by (intro TitleUrl_of_slug) auto
  also have "\<dots> = t @ runes ''x''"
  proof (rule filter_True)
    show "\<forall>c\<in>set (t @ runes ''x''). c \<noteq> 45"
      using sc by (fastforce simp: slug_char_def)
  qed
  finally show ?thesis .
qed

lemma spec_loop_agrees:
  "\<forall>c\<in>set t. slug_char c \<Longrightarrow> uniqueSlug_spec_loop m t = Some (GetTitleUrl_loop m t)"
proof (induction m t rule: GetTitleUrl_loop.induct)
  case (1 m t)
  show ?case
  proof (cases "lookupb m t")
    case False
    then show ?thesis
      by (simp add: GetTitleUrl_loop.simps[of m t] uniqueSlug_spec_loop.simps[of m t])
  next
    case True
    have "\<forall>c\<in>set (t @ runes ''x''). slug_char c"
      using "1.prems" by (auto simp: runes_def slug_char_def)
    from "1.IH"[OF True this] show ?thesis
      using True slug_only_append_x[OF "1.prems"]
      by (simp add: GetTitleUrl_loop.simps[of m t] uniqueSlug_spec_loop.simps[of m t])
  qed
qed

lemma GetTitleUrl_fresh: "\<not> lookupb m (GetTitleUrl title m)"
  using GetTitleUrl_loop_least[of m "TitleUrl title"] by (auto simp: GetTitleUrl_def)

lemma GetTitleUrl_at:
  assumes low: "\<forall>j<i. lookupb m (TitleUrl title @ replicate j 120)"
      and free: "\<not> lookupb m (TitleUrl title @ replicate i 120)"
  shows "GetTitleUrl title m = TitleUrl title @ replicate i 120"
proof -
  from GetTitleUrl_loop_least[of m "TitleUrl title"] obtain k where
    k: "GetTitleUrl title m = TitleUrl title @ replicate k 120"
       "\<not> lookupb m (TitleUrl title @ replicate k 120)"
       "\<forall>j<k. lookupb m (TitleUrl title @ replicate j 120)"
    by (auto simp: GetTitleUrl_def)
  have "\<not> k < i" using low k(2) by blast
  moreover have "\<not> i < k" using free k(3) by blast
  ultimately show ?thesis using k(1) by simp
qed

lemma GetTitleUrl_from:
  assumes low: "\<forall>j<i. lookupb m (TitleUrl title @ replicate j 120)"
  shows "\<exists>k\<ge>i. GetTitleUrl title m = TitleUrl title @ replicate k 120 \<and>
           (\<forall>j<Suc k. lookupb (fmupd (GetTitleUrl title m) True m) (TitleUrl title @ replicate j 120))"
proof -
  from GetTitleUrl_loop_least[of m "TitleUrl title"] obtain k where
    k: "GetTitleUrl title m = TitleUrl title @ replicate k 120"
       "\<not> lookupb m (TitleUrl title @ replicate k 120)"
       "\<forall>j<k. lookupb m (TitleUrl title @ replicate j 120)"
    by (auto simp: GetTitleUrl_def)
  have "\<not> k < i" using low k(2) by blast
  moreover have "\<forall>j<Suc k. lookupb (fmupd (GetTitleUrl title m) True m) (TitleUrl title @ replicate j 120)"
    using k(1) k(3) by (auto simp: less_Suc_eq)
  ultimately show ?thesis using k(1) by (intro exI[of _ k]) auto
qed

lemma repeated_calls_chain:
  "\<forall>j<i. lookupb m (TitleUrl title @ replicate j 120) \<Longrightarrow>
   \<forall>k. i \<le> k \<and> k < i + n \<longrightarrow> \<not> lookupb m (TitleUrl title @ replicate k 120) \<Longrightarrow>
   repeated_calls title m n = map (\<lambda>k. TitleUrl title @ replicate k 120) [i..<i + n]"
proof (induction n arbitrary: m i)
  case 0
  then show ?case by simp
next
  case (Suc n)
  have g: "GetTitleUrl title m = TitleUrl title @ replicate i 120"
    using Suc.prems by (intro GetTitleUrl_at) auto
  let ?m = "fmupd (TitleUrl title @ replicate i 120) True m"
  have a: "\<forall>j<Suc i. lookupb ?m (TitleUrl title @ replicate j 120)"
    using Suc.prems(1) by (auto simp: less_Suc_eq)
  have b: "\<forall>k. Suc i \<le> k \<and> k < Suc i + n \<longrightarrow> \<not> lookupb ?m (TitleUrl title @ replicate k 120)"
    using Suc.prems(2) by auto
  have "repeated_calls title ?m n = map (\<lambda>k. TitleUrl title @ replicate k 120) [Suc i..<Suc i + n]"
    by (rule Suc.IH[OF a b])
  then show ?case using g by (simp add: Let_def upt_conv_Cons)
qed

lemma repeated_calls_increasing:
  "\<forall>j<i. lookupb m (TitleUrl title @ replicate j 120) \<Longrightarrow>
   sorted_wrt (\<lambda>a b. \<exists>d>0. b = a @ replicate d 120) (repeated_calls title m n) \<and>
   (\<forall>r\<in>set (repeated_calls title m n). \<exists>k\<ge>i. r = TitleUrl title @ replicate k 120)"
proof (induction n arbitrary: m i)
  case 0
  then show ?case by simp
next
  case (Suc n)
  from GetTitleUrl_from[OF Suc.prems] obtain k where
    k: "i \<le> k" "GetTitleUrl title m = TitleUrl title @ replicate k 120"
       "\<forall>j<Suc k. lookupb (fmupd (GetTitleUrl title m) True m) (TitleUrl title @ replicate j 120)"
    by blast
  let ?rest = "repeated_calls title (fmupd (GetTitleUrl title m) True m) n"
  from Suc.IH[OF k(3)] have
    ih: "sorted_wrt (\<lambda>a b. \<exists>d>0. b = a @ replicate d 120) ?rest"
        "\<forall>r\<in>set ?rest. \<exists>k'\<ge>Suc k. r = TitleUrl title @ replicate k' 120"
    by auto
  have "\<exists>d>0. r = GetTitleUrl title m @ replicate d 120" if "r \<in> set ?rest" for r
  proof -
    from ih(2) that obtain k' where k': "Suc k \<le> k'" "r = TitleUrl title @ replicate k' 120"
      by blast
    have "replicate k' (120::nat) = replicate k 120 @ replicate (k' - k) 120"
      using k'(1) by (simp add: replicate_add[symmetric])
    then have "r = GetTitleUrl title m @ replicate (k' - k) 120" using k' k(2) by simp
    then show ?thesis using k'(1) by (intro exI[of _ "k' - k"]) auto
  qed
  moreover have "\<exists>k'\<ge>i. r = TitleUrl title @ replicate k' 120" if "r \<in> set ?rest" for r
    using ih(2) that k(1) by (meson Suc_leD le_trans)
  ultimately show ?case using ih(1) k(1) k(2) by (auto simp: Let_def)
qed

section \<open>The slug generator: claims\<close>

text \<open>
  Claim C1, as amended. \<open>GetTitleUrl\<close> computes \<open>TitleUrl title\<close> and then, while
  the candidate is in the map, appends a literal \<open>x\<close> to it; the candidate is not
  slugified again. The result is the slug followed by \<open>k\<close> letters \<open>x\<close> for the
  least \<open>k\<close> that gives a string not in the map. Where the slug has no hyphen this is
  the result of the algorithm the specification words, which slugifies again after
  each \<open>x\<close>.
\<close>

theorem GetTitleUrl_appends_x:
  "(\<exists>k. GetTitleUrl title usedSlugs = TitleUrl title @ replicate k 120
        \<and> \<not> lookupb usedSlugs (TitleUrl title @ replicate k 120)
        \<and> (\<forall>j<k. lookupb usedSlugs (TitleUrl title @ replicate j 120)))
   \<and> (45 \<notin> set (TitleUrl title) \<longrightarrow>
        uniqueSlug_spec title usedSlugs = Some (GetTitleUrl title usedSlugs))"
proof
  show "\<exists>k. GetTitleUrl title usedSlugs = TitleUrl title @ replicate k 120
        \<and> \<not> lookupb usedSlugs (TitleUrl title @ replicate k 120)
        \<and> (\<forall>j<k. lookupb usedSlugs (TitleUrl title @ replicate j 120))"
    unfolding GetTitleUrl_def by (rule GetTitleUrl_loop_least)
next
  show "45 \<notin> set (TitleUrl title) \<longrightarrow>
        uniqueSlug_spec title usedSlugs = Some (GetTitleUrl title usedSlugs)"
  proof
    assume h: "45 \<notin> set (TitleUrl title)"
    have "\<forall>c\<in>set (TitleUrl title). slug_char c"
      using h TitleUrl_chars[of _ title] by auto
    then show "uniqueSlug_spec title usedSlugs = Some (GetTitleUrl title usedSlugs)"
      unfolding uniqueSlug_spec_def GetTitleUrl_def by (rule spec_loop_agrees)
  qed
qed

text \<open>
  Claim C1 as stated fails where the slug has a hyphen: for the title \<open>a b\<close> and the
  used slug \<open>a-b\<close> the program returns \<open>a-bx\<close>, the algorithm of the
  specification \<open>abx\<close>.
\<close>

theorem GetTitleUrl_not_spec:
  "uniqueSlug_spec (runes ''a b'') (fmupd (runes ''a-b'') True fmempty)
     \<noteq> Some (GetTitleUrl (runes ''a b'') (fmupd (runes ''a-b'') True fmempty))"
  by (simp add: uniqueSlug_spec_def GetTitleUrl_def uniqueSlug_spec_loop.simps
      GetTitleUrl_loop.simps slug_eval)

theorem GetTitleUrl_appends_x_witness:
  "GetTitleUrl (runes ''News'') (fmupd (runes ''news'') True fmempty) = runes ''newsx''
   \<and> 45 \<notin> set (TitleUrl (runes ''News''))
   \<and> uniqueSlug_spec (runes ''News'') (fmupd (runes ''news'') True fmempty) = Some (runes ''newsx'')"
proof -
  have s: "TitleUrl (runes ''News'') = runes ''news''" by (simp add: slug_eval)
  have g: "GetTitleUrl (runes ''News'') (fmupd (runes ''news'') True fmempty) = runes ''newsx''"
    unfolding GetTitleUrl_def s by (simp add: GetTitleUrl_loop.simps runes_def)
  have h: "45 \<notin> set (TitleUrl (runes ''News''))" by (simp add: s) (simp add: runes_def)
  from GetTitleUrl_appends_x[of "runes ''News''" "fmupd (runes ''news'') True fmempty"] h g
  show ?thesis by simp
qed

text \<open>
  Claim C2, as amended. \<open>GetTitleUrl\<close> never returns a string that is in the map.
  Repeated calls for one title, each result entered into the map, return strings of
  which each is an earlier one followed by letters \<open>x\<close>, all of them the slug followed
  by letters \<open>x\<close>. The calls return the slug, the slug with \<open>x\<close>, the slug with
  \<open>xx\<close> and so on when the map they start from holds none of these; a candidate
  that the map holds already is passed over. A title with the empty slug, such as the
  empty title or one of ASCII punctuation only, takes part: the first collision gives
  \<open>x\<close>, the second \<open>xx\<close>.
\<close>

theorem GetTitleUrl_suffix_chain:
  "\<not> lookupb usedSlugs (GetTitleUrl title usedSlugs)
   \<and> ((\<forall>k<n. \<not> lookupb usedSlugs (TitleUrl title @ replicate k 120)) \<longrightarrow>
        repeated_calls title usedSlugs n = map (\<lambda>k. TitleUrl title @ replicate k 120) [0..<n])
   \<and> sorted_wrt (\<lambda>a b. \<exists>d>0. b = a @ replicate d 120) (repeated_calls title usedSlugs n)
   \<and> (\<forall>r\<in>set (repeated_calls title usedSlugs n). \<exists>k. r = TitleUrl title @ replicate k 120)
   \<and> ((title = [] \<or> (\<forall>c\<in>set title. c < 128 \<and> \<not> is_alnum_space c)) \<longrightarrow>
        TitleUrl title = []
        \<and> GetTitleUrl title (fmupd [] True fmempty) = runes ''x''
        \<and> GetTitleUrl title (fmupd (runes ''x'') True (fmupd [] True fmempty)) = runes ''xx'')
   \<and> (TitleUrl title = [] \<longrightarrow>
        GetTitleUrl title (fmupd [] True fmempty) = runes ''x''
        \<and> GetTitleUrl title (fmupd (runes ''x'') True (fmupd [] True fmempty)) = runes ''xx'')"
proof -
  have empty_slug: "GetTitleUrl title (fmupd [] True fmempty) = runes ''x''
        \<and> GetTitleUrl title (fmupd (runes ''x'') True (fmupd [] True fmempty)) = runes ''xx''"
    if e: "TitleUrl title = []"
  proof -
    have 1: "GetTitleUrl title (fmupd [] True fmempty) = TitleUrl title @ replicate 1 120"
      by (rule GetTitleUrl_at) (simp_all add: e)
    have 2: "GetTitleUrl title (fmupd (runes ''x'') True (fmupd [] True fmempty))
               = TitleUrl title @ replicate 2 120"
      by (rule GetTitleUrl_at) (auto simp: e runes_def less_Suc_eq numeral_2_eq_2)
    show ?thesis using e 1 2 by (simp add: runes_def numeral_2_eq_2)
  qed
  have fresh: "\<not> lookupb usedSlugs (GetTitleUrl title usedSlugs)" by (rule GetTitleUrl_fresh)
  have chain: "(\<forall>k<n. \<not> lookupb usedSlugs (TitleUrl title @ replicate k 120)) \<longrightarrow>
        repeated_calls title usedSlugs n = map (\<lambda>k. TitleUrl title @ replicate k 120) [0..<n]"
    using repeated_calls_chain[of 0 usedSlugs title n] by simp
  have incr: "sorted_wrt (\<lambda>a b. \<exists>d>0. b = a @ replicate d 120) (repeated_calls title usedSlugs n)"
    using repeated_calls_increasing[of 0 usedSlugs title n] by simp
  have form: "\<forall>r\<in>set (repeated_calls title usedSlugs n). \<exists>k. r = TitleUrl title @ replicate k 120"
    using repeated_calls_increasing[of 0 usedSlugs title n] by auto
  have punct: "(title = [] \<or> (\<forall>c\<in>set title. c < 128 \<and> \<not> is_alnum_space c)) \<longrightarrow>
        TitleUrl title = []
        \<and> GetTitleUrl title (fmupd [] True fmempty) = runes ''x''
        \<and> GetTitleUrl title (fmupd (runes ''x'') True (fmupd [] True fmempty)) = runes ''xx''"
  proof
    assume "title = [] \<or> (\<forall>c\<in>set title. c < 128 \<and> \<not> is_alnum_space c)"
    then have e: "TitleUrl title = []" using TitleUrl_punctuation[of title] by auto
    with empty_slug[OF e] show "TitleUrl title = []
        \<and> GetTitleUrl title (fmupd [] True fmempty) = runes ''x''
        \<and> GetTitleUrl title (fmupd (runes ''x'') True (fmupd [] True fmempty)) = runes ''xx''"
      by simp
  qed
  have gen: "TitleUrl title = [] \<longrightarrow>
        GetTitleUrl title (fmupd [] True fmempty) = runes ''x''
        \<and> GetTitleUrl title (fmupd (runes ''x'') True (fmupd [] True fmempty)) = runes ''xx''"
    using empty_slug by blast
  from fresh chain incr form punct gen show ?thesis by (intro conjI)
qed

text \<open>
  Claim C2 as stated fails for a map that holds a later candidate already: for the
  title \<open>News\<close> and the used slug \<open>newsx\<close> three calls return \<open>news\<close>,
  \<open>newsxx\<close> and \<open>newsxxx\<close>, not \<open>news\<close>, \<open>newsx\<close> and \<open>newsxx\<close>.
\<close>

theorem GetTitleUrl_chain_skips_used:
  "repeated_calls (runes ''News'') (fmupd (runes ''newsx'') True fmempty) 3
     = [runes ''news'', runes ''newsxx'', runes ''newsxxx'']
   \<and> repeated_calls (runes ''News'') (fmupd (runes ''newsx'') True fmempty) 3
     \<noteq> [TitleUrl (runes ''News''), TitleUrl (runes ''News'') @ runes ''x'',
         TitleUrl (runes ''News'') @ runes ''xx'']"
proof -
  have s: "TitleUrl (runes ''News'') = runes ''news''" by (simp add: slug_eval)
  have r: "repeated_calls (runes ''News'') (fmupd (runes ''newsx'') True fmempty) 3
     = [runes ''news'', runes ''newsxx'', runes ''newsxxx'']"
    unfolding numeral_3_eq_3 repeated_calls.simps GetTitleUrl_def s Let_def
    by (simp add: GetTitleUrl_loop.simps runes_def)
  show ?thesis unfolding r s by (simp add: runes_def)
qed

theorem GetTitleUrl_suffix_chain_witness:
  "repeated_calls (runes ''News'') fmempty 3 = [runes ''news'', runes ''newsx'', runes ''newsxx'']
   \<and> TitleUrl (runes ''?!'') = []
   \<and> GetTitleUrl (runes ''?!'') (fmupd [] True fmempty) = runes ''x''
   \<and> GetTitleUrl (runes ''?!'') (fmupd (runes ''x'') True (fmupd [] True fmempty)) = runes ''xx''"
proof -
  have s: "TitleUrl (runes ''News'') = runes ''news''" by (simp add: slug_eval)
  have h1: "\<forall>k<3. \<not> lookupb fmempty (TitleUrl (runes ''News'') @ replicate k 120)" by simp
  have h2: "runes ''?!'' = [] \<or> (\<forall>c\<in>set (runes ''?!''). c < 128 \<and> \<not> is_alnum_space c)"
    by (simp add: runes_def is_alnum_space_def)
  have u: "[0..<3] = [0, 1, 2]" by (simp add: upt_rec)
  from GetTitleUrl_suffix_chain[of fmempty "runes ''News''" 3] h1
  have "repeated_calls (runes ''News'') fmempty 3
          = map (\<lambda>k. TitleUrl (runes ''News'') @ replicate k 120) [0..<3]" by blast
  then have a: "repeated_calls (runes ''News'') fmempty 3
                  = [runes ''news'', runes ''newsx'', runes ''newsxx'']"
    unfolding s u by (simp add: runes_def numeral_2_eq_2)
  from GetTitleUrl_suffix_chain[of _ "runes ''?!''"] h2
  have "TitleUrl (runes ''?!'') = []
        \<and> GetTitleUrl (runes ''?!'') (fmupd [] True fmempty) = runes ''x''
        \<and> GetTitleUrl (runes ''?!'') (fmupd (runes ''x'') True (fmupd [] True fmempty)) = runes ''xx''"
    by blast
  with a show ?thesis by blast
qed

text \<open>
  Claim C3, as amended. Applying \<open>TitleUrl\<close> to one of its results deletes the
  hyphens of that result and changes nothing else; so \<open>TitleUrl\<close> returns a result
  of its own unchanged exactly when that result has no hyphen.
\<close>

theorem TitleUrl_twice:
  "TitleUrl (TitleUrl y) = filter (\<lambda>c. c \<noteq> 45) (TitleUrl y) \<and>
   (TitleUrl (TitleUrl y) = TitleUrl y \<longleftrightarrow> 45 \<notin> set (TitleUrl y))"
proof -
  have eq: "TitleUrl (TitleUrl y) = filter (\<lambda>c. c \<noteq> 45) (TitleUrl y)"
    by (rule TitleUrl_of_slug) (auto dest: TitleUrl_chars)
  have "filter (\<lambda>c. c \<noteq> 45) (TitleUrl y) = TitleUrl y \<longleftrightarrow> 45 \<notin> set (TitleUrl y)"
    by (auto simp: filter_id_conv)
  with eq show ?thesis by simp
qed

text \<open>
  Claim C3 as stated fails: \<open>a b\<close> has the slug \<open>a-b\<close>, and the slug of \<open>a-b\<close>
  is \<open>ab\<close>, the hyphen being outside the class \<^verbatim>\<open>[a-zA-Z0-9 ]\<close>.
\<close>

theorem TitleUrl_not_idempotent:
  "TitleUrl (TitleUrl (runes ''a b'')) \<noteq> TitleUrl (runes ''a b'')"
  by (simp add: TitleUrl_closed runes_def strings_ToLower_def unicode_ToLower_def translit_def
        is_alnum_space_def)

theorem TitleUrl_twice_witness:
  "TitleUrl (TitleUrl (runes ''My Show'')) = runes ''myshow''
   \<and> TitleUrl (TitleUrl (runes ''News'')) = TitleUrl (runes ''News'')"
proof -
  have a: "TitleUrl (runes ''My Show'') = runes ''my-show''" by (simp add: slug_eval)
  have b: "TitleUrl (runes ''News'') = runes ''news''" by (simp add: slug_eval)
  have h: "45 \<notin> set (TitleUrl (runes ''News''))" unfolding b by (simp add: runes_def)
  from TitleUrl_twice[of "runes ''My Show''"]
  have "TitleUrl (TitleUrl (runes ''My Show'')) = filter (\<lambda>c. c \<noteq> 45) (TitleUrl (runes ''My Show''))"
    by blast
  then have 1: "TitleUrl (TitleUrl (runes ''My Show'')) = runes ''myshow''"
    unfolding a by (simp add: runes_def)
  from TitleUrl_twice[of "runes ''News''"] h
  have 2: "TitleUrl (TitleUrl (runes ''News'')) = TitleUrl (runes ''News'')" by blast
  from 1 2 show ?thesis by blast
qed

text \<open>
  Claim C4. \<open>TitleUrl\<close> is the composition, in this order, of: lower case;
  transliteration of U+00E4, U+00F6, U+00FC and U+00DF to \<open>ae\<close>, \<open>oe\<close>, \<open>ue\<close>
  and \<open>ss\<close>; deletion of every rune outside \<^verbatim>\<open>[a-zA-Z0-9 ]\<close>; one hyphen for
  each run of spaces; one hyphen for each run of 2 to 10 hyphens; percent-encoding as a
  path segment. \<open>My Show\<close> becomes \<open>my-show\<close>.
\<close>

theorem TitleUrl_steps:
  "TitleUrl title = spec_slugify title \<and> TitleUrl (runes ''My Show'') = runes ''my-show''"
proof
  let ?w = "filter is_alnum_space (concat (map translit (strings_ToLower title)))"
  have nd: "no_double_hyphen (spaces_to_hyphen ?w)"
    by (rule spaces_to_hyphen_no_double) (rule stripped_no_hyphen)
  have "spec_slugify title = PathEscape (collapse_hyphens (spaces_to_hyphen ?w))"
    by (simp only: spec_slugify_def strings_ToLower_def)
  also have "\<dots> = PathEscape (spaces_to_hyphen ?w)"
    by (simp only: collapse_hyphens_id[OF nd])
  also have "\<dots> = spaces_to_hyphen ?w"
    by (rule PathEscape_id) (auto dest: stripped_slug_chars)
  finally show "TitleUrl title = spec_slugify title" by (simp add: TitleUrl_closed)
next
  show "TitleUrl (runes ''My Show'') = runes ''my-show''"
    by (simp add: TitleUrl_closed runes_def strings_ToLower_def unicode_ToLower_def translit_def
        is_alnum_space_def)
qed

theorem TitleUrl_steps_witness:
  "TitleUrl ([196] @ runes ''rger  im B'' @ [252] @ runes ''ro!'')
     = spec_slugify ([196] @ runes ''rger  im B'' @ [252] @ runes ''ro!'')
   \<and> TitleUrl ([196] @ runes ''rger  im B'' @ [252] @ runes ''ro!'') = runes ''aerger-im-buero''"
proof -
  have "TitleUrl ([196] @ runes ''rger  im B'' @ [252] @ runes ''ro!'') = runes ''aerger-im-buero''"
    by (simp add: slug_eval)
  with TitleUrl_steps[of "[196] @ runes ''rger  im B'' @ [252] @ runes ''ro!''"]
  show ?thesis by blast
qed

section \<open>The reconciler: lemmas\<close>

lemmas example_defs = ok_env_def itunes_item_def plain_item_def feed_of_def empty_store_def
  my_show_podcast_def empty_state_def

lemma with_ids_length [simp]: "length (with_ids env es) = length es"
  by (simp add: with_ids_def)

lemma with_ids_nth:
  "i < length es \<Longrightarrow> with_ids env es ! i = (es ! i)\<lparr>Episode_ID := newEpisodeID env i\<rparr>"
  by (simp add: with_ids_def nth_enumerate_eq)

lemma with_ids_elem:
  assumes "ep \<in> set (with_ids env es)"
  shows "\<exists>e\<in>set es. \<exists>i. ep = e\<lparr>Episode_ID := i\<rparr>"
proof -
  from assms obtain i where "i < length es" "ep = with_ids env es ! i"
    by (auto simp: in_set_conv_nth)
  then show ?thesis using with_ids_nth[of i es env] nth_mem[of i es] by auto
qed

lemma newEpisodes_of_elem:
  "ep \<in> set (newEpisodes_of env ex podcast items) \<Longrightarrow>
   \<exists>e\<in>set items. Item_ITunesExt e \<noteq> None \<and> \<not> lookupb ex (GUID e) \<and> ep = createEpisode env e podcast"
  by (induction items) (auto split: if_splits)

lemma newEpisodes_of_filter:
  "newEpisodes_of env ex podcast (filter (\<lambda>e. Item_ITunesExt e \<noteq> None) items)
     = newEpisodes_of env ex podcast items"
  by (induction items) auto

lemma newEpisodes_of_no_ext:
  "\<forall>e\<in>set items. Item_ITunesExt e = None \<Longrightarrow> newEpisodes_of env ex podcast items = []"
  by (induction items) auto

lemma createEpisode_Guid [simp]: "Guid (createEpisode env e podcast) = GUID e"
  by (simp add: createEpisode_def Let_def split: prod.splits)

lemma createEpisode_ID [simp]: "Episode_ID (createEpisode env e podcast) = 0"
  by (simp add: createEpisode_def Let_def split: prod.splits)

lemma processEpisodes_added:
  "\<exists>added. episodes (snd (processEpisodes env feed podcast s)) = episodes s @ added \<and>
     podcasts (snd (processEpisodes env feed podcast s)) = podcasts s \<and>
     (\<forall>ep\<in>set added. \<exists>e\<in>set (Items feed). Item_ITunesExt e \<noteq> None \<and>
         ep\<lparr>Episode_ID := 0\<rparr> = createEpisode env e podcast)"
proof -
  let ?found = "filter (\<lambda>e. PodcastUrl e = PodlistUrl podcast) (episodes s)"
  let ?ex = "fold (\<lambda>e m. fmupd (Guid e) True m) ?found fmempty"
  let ?new = "newEpisodes_of env ?ex podcast (Items feed)"
  have new: "\<exists>e\<in>set (Items feed). Item_ITunesExt e \<noteq> None \<and>
         ep\<lparr>Episode_ID := 0\<rparr> = createEpisode env e podcast"
    if "ep \<in> set (with_ids env ?new)" for ep
  proof -
    from with_ids_elem[OF that] obtain e0 i where e0: "e0 \<in> set ?new" "ep = e0\<lparr>Episode_ID := i\<rparr>"
      by blast
    from newEpisodes_of_elem[OF e0(1)] obtain e where
      e: "e \<in> set (Items feed)" "Item_ITunesExt e \<noteq> None" "e0 = createEpisode env e podcast"
      by blast
    have "e0\<lparr>Episode_ID := 0\<rparr> = e0" using e(3) by simp
    then have "ep\<lparr>Episode_ID := 0\<rparr> = createEpisode env e podcast" using e0(2) e(3) by simp
    then show ?thesis using e by blast
  qed
  have new_take: "\<exists>e\<in>set (Items feed). Item_ITunesExt e \<noteq> None \<and>
         ep\<lparr>Episode_ID := 0\<rparr> = createEpisode env e podcast"
    if "ep \<in> set (take n (with_ids env ?new))" for ep n
    using that new in_set_takeD by fast
  show ?thesis
    using new new_take
    by (auto simp: processEpisodes_def Let_def split: option.splits simp del: length_greater_0_conv)
qed

lemma update_set_keys:
  "fst ` set (update_set env feed) \<subseteq>
     {''categories'', ''link'', ''description'', ''subtitle'', ''author'', ''image'', ''updated''}"
  by (auto simp: update_set_def split: option.splits)

lemma set_field_frame:
  "fst kv \<in> {''categories'', ''link'', ''description'', ''subtitle'', ''author'', ''image'', ''updated''} \<Longrightarrow>
   Title (set_field kv p) = Title p \<and> PodlistUrl (set_field kv p) = PodlistUrl p \<and>
   Feed (set_field kv p) = Feed p \<and> ID (set_field kv p) = ID p \<and> Owner (set_field kv p) = Owner p"
  by (cases "(kv, p)" rule: set_field.cases) auto

lemma fold_set_field_frame:
  "fst ` set upd \<subseteq> {''categories'', ''link'', ''description'', ''subtitle'', ''author'', ''image'', ''updated''} \<Longrightarrow>
   Title (fold set_field upd p) = Title p \<and> PodlistUrl (fold set_field upd p) = PodlistUrl p \<and>
   Feed (fold set_field upd p) = Feed p \<and> ID (fold set_field upd p) = ID p \<and>
   Owner (fold set_field upd p) = Owner p"
proof (induction upd arbitrary: p)
  case Nil
  then show ?case by simp
next
  case (Cons kv upd)
  have kv: "fst kv \<in> {''categories'', ''link'', ''description'', ''subtitle'', ''author'', ''image'', ''updated''}"
    using Cons.prems by auto
  have "fst ` set upd \<subseteq> {''categories'', ''link'', ''description'', ''subtitle'', ''author'', ''image'', ''updated''}"
    using Cons.prems by auto
  from Cons.IH[OF this, of "set_field kv p"] set_field_frame[OF kv, of p]
  show ?case by simp
qed

lemma UpdateOne_frame:
  assumes "fst ` set upd \<subseteq> {''categories'', ''link'', ''description'', ''subtitle'', ''author'', ''image'', ''updated''}"
  shows "map Title (UpdateOne i upd ps) = map Title ps \<and>
         map PodlistUrl (UpdateOne i upd ps) = map PodlistUrl ps \<and>
         map Feed (UpdateOne i upd ps) = map Feed ps"
  by (induction ps) (simp_all add: fold_set_field_frame[OF assms])

lemma updatePodcast_frame:
  "map Title (podcasts (updatePodcast env podcast feed s)) = map Title (podcasts s) \<and>
   map PodlistUrl (podcasts (updatePodcast env podcast feed s)) = map PodlistUrl (podcasts s) \<and>
   map Feed (podcasts (updatePodcast env podcast feed s)) = map Feed (podcasts s)"
  by (simp add: updatePodcast_def UpdateOne_frame[OF update_set_keys])

lemma processEpisodes_podcasts:
  "podcasts (snd (processEpisodes env feed podcast s)) = podcasts s"
  using processEpisodes_added[of env feed podcast s] by blast

lemma processFeed_update_store:
  assumes "lookupb (existingPodcastFeeds st) (FeedLink feed)"
  shows "store (snd (processFeed env feed st)) = store st \<or>
         (\<exists>podcast. store (snd (processFeed env feed st))
              = snd (processEpisodes env feed podcast (updatePodcast env podcast feed (store st))))"
  using assms
  by (auto simp: processFeed_def Let_def split: option.splits prod.splits) (metis snd_conv)+

section \<open>The reconciler and the fetcher: claims\<close>

text \<open>
  Claim C5, at an input where the program breaks it. A feed holds two items with the
  GUID \<open>g1\<close>, both with the iTunes extension, and the store holds no episode of the
  podcast: \<^verbatim>\<open>processEpisodes\<close> inserts both, since the loop over the items does not
  enter the GUID of an accepted item into \<^verbatim>\<open>existingEpisodes\<close>.
\<close>

theorem processEpisodes_same_GUID_twice:
  "map Guid (episodes (snd (processEpisodes ok_env
       (feed_of (runes ''My Show'') (runes ''https://a.example/feed.xml'')
          [itunes_item (runes ''One'') (runes ''g1''), itunes_item (runes ''Two'') (runes ''g1'')])
       my_show_podcast empty_store)))
     = [runes ''g1'', runes ''g1'']"
  by (simp add: processEpisodes_def example_defs with_ids_def createEpisode_def Let_def)

text \<open>
  Claim C6. An item without the iTunes extension is never inserted: removing such
  items from the feed changes neither the result nor the store, every inserted episode
  is made from an item that has the extension, and skipping is no error. With a store
  that does not fail the result is success, and a feed whose items all lack the
  extension leaves the store as it is.
\<close>

theorem processEpisodes_needs_ITunesExt:
  "processEpisodes env (feed\<lparr>Items := filter (\<lambda>e. Item_ITunesExt e \<noteq> None) (Items feed)\<rparr>) podcast s
     = processEpisodes env feed podcast s
   \<and> (\<exists>added. episodes (snd (processEpisodes env feed podcast s)) = episodes s @ added \<and>
        (\<forall>ep\<in>set added. \<exists>e\<in>set (Items feed). Item_ITunesExt e \<noteq> None \<and>
            ep\<lparr>Episode_ID := 0\<rparr> = createEpisode env e podcast))
   \<and> (\<not> find_fails env \<and> \<not> cursorAll_fails env \<and> bulkWrite_stops env = None \<longrightarrow>
        fst (processEpisodes env feed podcast s) = None)
   \<and> ((\<forall>e\<in>set (Items feed). Item_ITunesExt e = None) \<and> \<not> find_fails env \<and> \<not> cursorAll_fails env \<longrightarrow>
        processEpisodes env feed podcast s = (None, s))"
proof (intro conjI)
  show "processEpisodes env (feed\<lparr>Items := filter (\<lambda>e. Item_ITunesExt e \<noteq> None) (Items feed)\<rparr>) podcast s
     = processEpisodes env feed podcast s"
    by (simp add: processEpisodes_def newEpisodes_of_filter del: not_None_eq)
next
  show "\<exists>added. episodes (snd (processEpisodes env feed podcast s)) = episodes s @ added \<and>
        (\<forall>ep\<in>set added. \<exists>e\<in>set (Items feed). Item_ITunesExt e \<noteq> None \<and>
            ep\<lparr>Episode_ID := 0\<rparr> = createEpisode env e podcast)"
    using processEpisodes_added[of env feed podcast s] by blast
next
  show "\<not> find_fails env \<and> \<not> cursorAll_fails env \<and> bulkWrite_stops env = None \<longrightarrow>
        fst (processEpisodes env feed podcast s) = None"
    by (simp add: processEpisodes_def Let_def)
next
  show "(\<forall>e\<in>set (Items feed). Item_ITunesExt e = None) \<and> \<not> find_fails env \<and> \<not> cursorAll_fails env \<longrightarrow>
        processEpisodes env feed podcast s = (None, s)"
    by (simp add: processEpisodes_def Let_def newEpisodes_of_no_ext)
qed

theorem processEpisodes_needs_ITunesExt_witness:
  "map Guid (episodes (snd (processEpisodes ok_env
       (feed_of (runes ''My Show'') (runes ''https://a.example/feed.xml'')
          [plain_item (runes ''One'') (runes ''g1''), itunes_item (runes ''Two'') (runes ''g2'')])
       my_show_podcast empty_store))) = [runes ''g2'']
   \<and> fst (processEpisodes ok_env
       (feed_of (runes ''My Show'') (runes ''https://a.example/feed.xml'')
          [plain_item (runes ''One'') (runes ''g1''), itunes_item (runes ''Two'') (runes ''g2'')])
       my_show_podcast empty_store) = None
   \<and> processEpisodes ok_env
       (feed_of (runes ''My Show'') (runes ''https://a.example/feed.xml'')
          [plain_item (runes ''One'') (runes ''g1'')])
       my_show_podcast empty_store = (None, empty_store)"
proof -
  let ?f = "feed_of (runes ''My Show'') (runes ''https://a.example/feed.xml'')
          [plain_item (runes ''One'') (runes ''g1''), itunes_item (runes ''Two'') (runes ''g2'')]"
  let ?g = "feed_of (runes ''My Show'') (runes ''https://a.example/feed.xml'')
          [plain_item (runes ''One'') (runes ''g1'')]"
  have e: "\<not> find_fails ok_env \<and> \<not> cursorAll_fails ok_env \<and> bulkWrite_stops ok_env = None"
    by (simp add: ok_env_def)
  have n: "\<forall>e\<in>set (Items ?g). Item_ITunesExt e = None"
    by (simp add: feed_of_def plain_item_def)
  have f: "?f\<lparr>Items := filter (\<lambda>e. Item_ITunesExt e \<noteq> None) (Items ?f)\<rparr>
             = feed_of (runes ''My Show'') (runes ''https://a.example/feed.xml'')
                 [itunes_item (runes ''Two'') (runes ''g2'')]"
    by (simp add: feed_of_def plain_item_def itunes_item_def)
  have 1: "processEpisodes ok_env ?f my_show_podcast empty_store
             = processEpisodes ok_env (feed_of (runes ''My Show'') (runes ''https://a.example/feed.xml'')
                 [itunes_item (runes ''Two'') (runes ''g2'')]) my_show_podcast empty_store"
    using processEpisodes_needs_ITunesExt[of ok_env ?f my_show_podcast empty_store]
    unfolding f by simp
  have 2: "fst (processEpisodes ok_env ?f my_show_podcast empty_store) = None"
    using processEpisodes_needs_ITunesExt[of ok_env ?f my_show_podcast empty_store] e by blast
  have 3: "processEpisodes ok_env ?g my_show_podcast empty_store = (None, empty_store)"
    using processEpisodes_needs_ITunesExt[of ok_env ?g my_show_podcast empty_store] e n by blast
  have 4: "map Guid (episodes (snd (processEpisodes ok_env
             (feed_of (runes ''My Show'') (runes ''https://a.example/feed.xml'')
                 [itunes_item (runes ''Two'') (runes ''g2'')]) my_show_podcast empty_store)))
           = [runes ''g2'']"
    by (simp add: processEpisodes_def example_defs with_ids_def createEpisode_def Let_def)
  from 1 2 3 4 show ?thesis by simp
qed

text \<open>
  Claim C7. The update document sets fields among categories, link, description,
  subtitle, author, image and updated only. \<^verbatim>\<open>updatePodcast\<close>, and all of
  \<^verbatim>\<open>processFeed\<close> for a feed whose self link is in \<^verbatim>\<open>existingPodcastFeeds\<close>,
  leave the title, the slug and the feed URL of every stored podcast as they are.
\<close>

theorem update_path_keeps_title_slug_feed:
  assumes "lookupb (existingPodcastFeeds st) (FeedLink feed)"
  shows "fst ` set (update_set env feed) \<subseteq>
           {''categories'', ''link'', ''description'', ''subtitle'', ''author'', ''image'', ''updated''}
       \<and> map Title (podcasts (updatePodcast env podcast feed s)) = map Title (podcasts s)
       \<and> map PodlistUrl (podcasts (updatePodcast env podcast feed s)) = map PodlistUrl (podcasts s)
       \<and> map Feed (podcasts (updatePodcast env podcast feed s)) = map Feed (podcasts s)
       \<and> map Title (podcasts (store (snd (processFeed env feed st)))) = map Title (podcasts (store st))
       \<and> map PodlistUrl (podcasts (store (snd (processFeed env feed st))))
           = map PodlistUrl (podcasts (store st))
       \<and> map Feed (podcasts (store (snd (processFeed env feed st)))) = map Feed (podcasts (store st))"
proof -
  from processFeed_update_store[OF assms, of env]
  have "podcasts (store (snd (processFeed env feed st))) = podcasts (store st) \<or>
        (\<exists>podcast. podcasts (store (snd (processFeed env feed st)))
            = podcasts (updatePodcast env podcast feed (store st)))"
    by (auto simp: processEpisodes_podcasts)
  then have "map Title (podcasts (store (snd (processFeed env feed st)))) = map Title (podcasts (store st))
       \<and> map PodlistUrl (podcasts (store (snd (processFeed env feed st))))
           = map PodlistUrl (podcasts (store st))
       \<and> map Feed (podcasts (store (snd (processFeed env feed st)))) = map Feed (podcasts (store st))"
    using updatePodcast_frame by auto
  then show ?thesis using update_set_keys updatePodcast_frame by blast
qed

theorem update_path_keeps_title_slug_feed_witness:
  "lookupb (fmupd (runes ''https://a.example/feed.xml'') True fmempty)
      (FeedLink (feed_of (runes ''Renamed'') (runes ''https://a.example/feed.xml'') []))
   \<and> map Title (podcasts (store (snd (processFeed ok_env
        (feed_of (runes ''Renamed'') (runes ''https://a.example/feed.xml'') [])
        \<lparr>store = \<lparr>podcasts = [my_show_podcast], episodes = []\<rparr>,
         existingPodcastFeeds = fmupd (runes ''https://a.example/feed.xml'') True fmempty,
         podcastTitles = fmupd (runes ''my-show'') True fmempty\<rparr>)))) = [runes ''My Show'']
   \<and> map PodlistUrl (podcasts (store (snd (processFeed ok_env
        (feed_of (runes ''Renamed'') (runes ''https://a.example/feed.xml'') [])
        \<lparr>store = \<lparr>podcasts = [my_show_podcast], episodes = []\<rparr>,
         existingPodcastFeeds = fmupd (runes ''https://a.example/feed.xml'') True fmempty,
         podcastTitles = fmupd (runes ''my-show'') True fmempty\<rparr>)))) = [runes ''my-show'']"
proof -
  let ?feed = "feed_of (runes ''Renamed'') (runes ''https://a.example/feed.xml'') []"
  let ?st = "\<lparr>store = \<lparr>podcasts = [my_show_podcast], episodes = []\<rparr>,
         existingPodcastFeeds = fmupd (runes ''https://a.example/feed.xml'') True fmempty,
         podcastTitles = fmupd (runes ''my-show'') True fmempty\<rparr>"
  have h: "lookupb (existingPodcastFeeds ?st) (FeedLink ?feed)"
    by (simp add: feed_of_def)
  have h': "lookupb (fmupd (runes ''https://a.example/feed.xml'') True fmempty) (FeedLink ?feed)"
    by (simp add: feed_of_def)
  from update_path_keeps_title_slug_feed[OF h, of ok_env] h'
  show ?thesis by (simp add: my_show_podcast_def)
qed

text \<open>
  Claim C8, at an input where the program breaks it. Two items of one feed have the
  title \<open>Episode\<close> and different GUIDs: both episodes get the slug \<open>episode\<close>,
  since \<^verbatim>\<open>createEpisode\<close> hands \<^verbatim>\<open>GetTitleUrl\<close> a new empty map at every
  call.
\<close>

theorem createEpisode_same_slug_twice:
  "map Episode_PodlistUrl (episodes (snd (processEpisodes ok_env
       (feed_of (runes ''My Show'') (runes ''https://a.example/feed.xml'')
          [itunes_item (runes ''Episode'') (runes ''g1''),
           itunes_item (runes ''Episode'') (runes ''g2'')])
       my_show_podcast empty_store)))
     = [runes ''episode'', runes ''episode'']"
proof -
  have s: "GetTitleUrl (runes ''Episode'') fmempty = runes ''episode''"
    by (simp add: GetTitleUrl_def GetTitleUrl_loop.simps slug_eval)
  have g: "runes ''g2'' \<noteq> runes ''g1''" by (simp add: runes_def)
  show ?thesis
    by (simp add: processEpisodes_def example_defs with_ids_def createEpisode_def Let_def s g)
qed

text \<open>
  Claim C9. For a non-empty \<open>url\<close>, a feed that \<^verbatim>\<open>LoadFeed\<close> returns has a
  non-empty self link: the one the parser gave when that is non-empty, \<open>url\<close>
  otherwise; nothing else of the parsed feed is changed.
\<close>

theorem LoadFeed_FeedLink:
  assumes "url \<noteq> []" and "LoadFeed parseURL url = Inr feed"
  shows "FeedLink feed \<noteq> [] \<and>
         (\<exists>parsed. parseURL url = Some parsed \<and>
            FeedLink feed = (if FeedLink parsed = [] then url else FeedLink parsed) \<and>
            feed = parsed\<lparr>FeedLink := FeedLink feed\<rparr>)"
proof -
  from assms(2) obtain parsed where p: "parseURL url = Some parsed"
    by (cases "parseURL url") (simp_all add: LoadFeed_def)
  show ?thesis
  proof (cases "FeedLink parsed = []")
    case True
    then have "feed = parsed\<lparr>FeedLink := url\<rparr>"
      using assms(2) p by (simp add: LoadFeed_def)
    then show ?thesis using assms(1) p True by simp
  next
    case False
    then have "feed = parsed"
      using assms(2) p by (simp add: LoadFeed_def)
    then show ?thesis using p False by simp
  qed
qed

theorem LoadFeed_FeedLink_witness:
  "runes ''https://a.example/feed.xml'' \<noteq> []
   \<and> LoadFeed (\<lambda>u. Some (feed_of (runes ''My Show'') [] [])) (runes ''https://a.example/feed.xml'')
       = Inr (feed_of (runes ''My Show'') (runes ''https://a.example/feed.xml'') [])
   \<and> FeedLink (feed_of (runes ''My Show'') (runes ''https://a.example/feed.xml'') []) \<noteq> []"
proof -
  have u: "runes ''https://a.example/feed.xml'' \<noteq> []" by (simp add: runes_def)
  have l: "LoadFeed (\<lambda>u. Some (feed_of (runes ''My Show'') [] [])) (runes ''https://a.example/feed.xml'')
       = Inr (feed_of (runes ''My Show'') (runes ''https://a.example/feed.xml'') [])"
    by (simp add: LoadFeed_def feed_of_def)
  from LoadFeed_FeedLink[OF u l] u l show ?thesis by blast
qed

text \<open>
  Claim C10. For a feed whose self link is not in \<^verbatim>\<open>existingPodcastFeeds\<close>: when
  the insert of the podcast fails, \<^verbatim>\<open>processFeed\<close> returns that error and leaves
  the state, the two maps included, as it is; when it succeeds, the self link and the
  new slug are entered into the two maps and nothing else is. So after the call each of
  the two is in its map exactly when the insert succeeded.
\<close>

theorem processFeed_create_indices:
  assumes "\<not> lookupb (existingPodcastFeeds st) (FeedLink feed)"
  shows "(insertOne_fails env \<longrightarrow>
            fst (processFeed env feed st) = Some ErrorInsertingPodcast \<and>
            snd (processFeed env feed st) = st)
       \<and> (\<not> insertOne_fails env \<longrightarrow>
            existingPodcastFeeds (snd (processFeed env feed st))
              = fmupd (FeedLink feed) True (existingPodcastFeeds st) \<and>
            podcastTitles (snd (processFeed env feed st))
              = fmupd (GetTitleUrl (Feed_Title feed) (podcastTitles st)) True (podcastTitles st) \<and>
            fst (processFeed env feed st) \<noteq> Some ErrorInsertingPodcast)
       \<and> (lookupb (existingPodcastFeeds (snd (processFeed env feed st))) (FeedLink feed)
            \<longleftrightarrow> \<not> insertOne_fails env)
       \<and> (lookupb (podcastTitles (snd (processFeed env feed st)))
              (GetTitleUrl (Feed_Title feed) (podcastTitles st))
            \<longleftrightarrow> \<not> insertOne_fails env)"
  using assms GetTitleUrl_fresh[of "podcastTitles st" "Feed_Title feed"]
  by (auto simp: processFeed_def Let_def split: option.splits prod.splits)

theorem processFeed_create_indices_witness:
  "\<not> lookupb (existingPodcastFeeds empty_state)
       (FeedLink (feed_of (runes ''My Show'') (runes ''https://a.example/feed.xml'') []))
   \<and> existingPodcastFeeds (snd (processFeed ok_env
        (feed_of (runes ''My Show'') (runes ''https://a.example/feed.xml'') []) empty_state))
       = fmupd (runes ''https://a.example/feed.xml'') True fmempty
   \<and> podcastTitles (snd (processFeed ok_env
        (feed_of (runes ''My Show'') (runes ''https://a.example/feed.xml'') []) empty_state))
       = fmupd (runes ''my-show'') True fmempty
   \<and> processFeed (ok_env\<lparr>insertOne_fails := True\<rparr>)
        (feed_of (runes ''My Show'') (runes ''https://a.example/feed.xml'') []) empty_state
       = (Some ErrorInsertingPodcast, empty_state)"
proof -
  let ?feed = "feed_of (runes ''My Show'') (runes ''https://a.example/feed.xml'') []"
  have h: "\<not> lookupb (existingPodcastFeeds empty_state) (FeedLink ?feed)"
    by (simp add: empty_state_def)
  have s: "GetTitleUrl (Feed_Title ?feed) (podcastTitles empty_state) = runes ''my-show''"
    by (simp add: feed_of_def empty_state_def GetTitleUrl_def GetTitleUrl_loop.simps slug_eval)
  have ok: "\<not> insertOne_fails ok_env" by (simp add: ok_env_def)
  have bad: "insertOne_fails (ok_env\<lparr>insertOne_fails := True\<rparr>)" by simp
  have 1: "existingPodcastFeeds (snd (processFeed ok_env ?feed empty_state))
             = fmupd (runes ''https://a.example/feed.xml'') True fmempty
         \<and> podcastTitles (snd (processFeed ok_env ?feed empty_state))
             = fmupd (runes ''my-show'') True fmempty"
    using processFeed_create_indices[OF h, of ok_env] ok unfolding s
    by (simp add: feed_of_def empty_state_def)
  have 2: "processFeed (ok_env\<lparr>insertOne_fails := True\<rparr>) ?feed empty_state
             = (Some ErrorInsertingPodcast, empty_state)"
    using processFeed_create_indices[OF h, of "ok_env\<lparr>insertOne_fails := True\<rparr>"] bad
    by (simp add: prod_eq_iff)
  from h 1 2 show ?thesis by blast
qed

end
